theory Spec2Isabelle
  imports Main "HOL-Library.Word"
begin

unbundle bit_operations_syntax

section \<open>Data model\<close>

text \<open>
  A byte is \<open>unsigned char\<close>. The fields of the packet structs are only ever moved with
  \<open>memcpy\<close>, never computed with, so a \<open>float\<close> and an \<open>int32_t\<close> are modelled by
  their 32-bit object representation (for a float, its IEEE bit pattern). Two field
  values have the same byte representation exactly when these 32-bit values are equal.
\<close>

type_synonym byte = "8 word"
type_synonym float32 = "32 word"
type_synonym int32 = "32 word"

text \<open>
  \<open>memcpy\<close> of a 4-byte object writes its bytes in the platform's order. The platform is a
  parameter of the model; every theorem below holds for both byte orders.
\<close>

datatype endian = LittleEndian | BigEndian

definition bytes_LE :: "32 word \<Rightarrow> byte list" where
  "bytes_LE w = [ucast w, ucast (drop_bit 8 w), ucast (drop_bit 16 w), ucast (drop_bit 24 w)]"

definition word_LE :: "byte list \<Rightarrow> 32 word" where
  "word_LE bs = foldr (\<lambda>b w. ucast b OR push_bit 8 w) bs 0"

text \<open>The bytes a 4-byte object occupies in memory, lowest address first, and back.\<close>

fun object_bytes :: "endian \<Rightarrow> 32 word \<Rightarrow> byte list" where
  "object_bytes LittleEndian w = bytes_LE w"
| "object_bytes BigEndian w = rev (bytes_LE w)"

fun object_value :: "endian \<Rightarrow> byte list \<Rightarrow> 32 word" where
  "object_value LittleEndian bs = word_LE bs"
| "object_value BigEndian bs = word_LE (rev bs)"

text \<open>
  \<open>typedef struct { float my; int32_t name; float target; }\<close>, declared three times under
  three names: \<open>CyyPacket\<close> (examples/CyyPacket.c), \<open>CyyPacket_header\<close>
  (generated/CyyPacket_header_send.c) and \<open>Cyy_Packet_header\<close>
  (generated/Cyy_Packet_header_send.cpp).
\<close>

record CyyPacket =
  my :: float32
  name :: int32
  target :: float32

record CyyPacket_header =
  my :: float32
  name :: int32
  target :: float32

record Cyy_Packet_header =
  my :: float32
  name :: int32
  target :: float32

text \<open>
  \<open>typedef struct { char aim[16]; int32_t fire; } WeaponPacket\<close>. The array is a byte
  list; a well-typed value has exactly 16 bytes in \<open>aim\<close>.
\<close>

record WeaponPacket =
  aim :: "byte list"
  fire :: int32

section \<open>Reading a caller-supplied buffer\<close>

text \<open>
  The C functions receive a bare pointer and trust the caller about how many bytes stand
  behind it. A buffer is the list of bytes that really are there; a pointer into it is an
  offset. Every computation that reads the buffer returns the offsets it read, in order,
  and its result: \<open>None\<close> when a read fell outside the buffer (undefined behaviour in C,
  where the computation stops in the model).
\<close>

type_synonym 'a access = "int list \<times> 'a option"

definition return_rd :: "'a \<Rightarrow> 'a access" where
  "return_rd x = ([], Some x)"

definition bind_rd :: "'a access \<Rightarrow> ('a \<Rightarrow> 'b access) \<Rightarrow> 'b access" where
  "bind_rd m f =
     (case snd m of
        None \<Rightarrow> (fst m, None)
      | Some x \<Rightarrow> (fst m @ fst (f x), snd (f x)))"

definition rd :: "byte list \<Rightarrow> int \<Rightarrow> byte access" where
  "rd mem i = ([i], if 0 \<le> i \<and> i < int (length mem) then Some (mem ! nat i) else None)"

text \<open>\<open>memcpy(dst, mem + p, n)\<close>: the \<open>n\<close> bytes at offsets \<open>p, p + 1, ...\<close>.\<close>

fun memcpy_rd :: "byte list \<Rightarrow> int \<Rightarrow> nat \<Rightarrow> byte list access" where
  "memcpy_rd mem p 0 = return_rd []"
| "memcpy_rd mem p (Suc n) =
     bind_rd (rd mem p) (\<lambda>b. bind_rd (memcpy_rd mem (p + 1) n) (\<lambda>bs. return_rd (b # bs)))"

section \<open>The framing constants\<close>

text \<open>
  \<open>PACKET_HEADER\<close> and \<open>PACKET_FOOTER\<close> are declared with the same values in all four
  framed files. \<open>PACKET_SIZE\<close> is 12 in the three Cyy files and 16 in
  generated/Dart_aim_Packet_recv.c, which writes the total size as \<open>PACKET_SIZE + 3\<close>.
\<close>

definition PACKET_SIZE :: int where
  "PACKET_SIZE = 12"

definition PACKET_HEADER :: byte where
  "PACKET_HEADER = 0xAA"

definition PACKET_FOOTER :: byte where
  "PACKET_FOOTER = 0x55"

definition PACKET_TOTAL_SIZE :: int where
  "PACKET_TOTAL_SIZE = PACKET_SIZE + 3"

definition Dart_PACKET_SIZE :: int where
  "Dart_PACKET_SIZE = 16"

section \<open>The checksum\<close>

text \<open>
  \<open>send_Verify(buf, len)\<close>, the same text in all four framed files:
  \<^verbatim>\<open>uint32_t s = 0; for (int i = 0; i < len; ++i) s += buf[i]; return (uint8_t)(s & 0xFF);\<close>
  The pointer \<open>buf\<close> is the offset \<open>buf\<close> into \<open>mem\<close>. The accumulator is a 32-bit word,
  so \<open>+\<close> wraps as in C.
\<close>

function send_Verify_loop :: "byte list \<Rightarrow> int \<Rightarrow> int \<Rightarrow> int \<Rightarrow> 32 word \<Rightarrow> 32 word access" where
  "send_Verify_loop mem buf len i s =
     (if i < len
      then bind_rd (rd mem (buf + i)) (\<lambda>b. send_Verify_loop mem buf len (i + 1) (s + ucast b))
      else return_rd s)"
  by pat_completeness auto
termination
  by (relation "measure (\<lambda>(mem, buf, len, i, s). nat (len - i))") auto

declare send_Verify_loop.simps [simp del]

definition send_Verify :: "byte list \<Rightarrow> int \<Rightarrow> int \<Rightarrow> byte access" where
  "send_Verify mem buf len =
     bind_rd (send_Verify_loop mem buf len 0 0) (\<lambda>s. return_rd (ucast (s AND 0xFF)))"

text \<open>
  The checksum in the specification's words: the low 8 bits of the unsigned arithmetic
  sum of the bytes, the sum taken in the natural numbers.
\<close>

definition checksum_spec :: "byte list \<Rightarrow> byte" where
  "checksum_spec bs = word_of_nat (sum_list (map unat bs) mod 256)"

section \<open>examples/CyyPacket.c\<close>

text \<open>
  \<open>encode(in, out)\<close> writes \<open>out[0]\<close>, \<open>out[1]\<close>, ... through the moving pointer \<open>p\<close>; the
  model returns the bytes written, in order. The source requires \<open>out\<close> to hold at least
  \<open>PACKET_TOTAL_SIZE\<close> bytes. The checksum is read back from \<open>out + 1\<close>, after the payload
  has been written there.
\<close>

definition encode :: "endian \<Rightarrow> CyyPacket \<Rightarrow> byte list access" where
  "encode e v =
     (let out = [PACKET_HEADER];
          out = out @ object_bytes e (CyyPacket.my v);
          out = out @ object_bytes e (CyyPacket.name v);
          out = out @ object_bytes e (CyyPacket.target v)
      in bind_rd (send_Verify out 1 PACKET_SIZE) (\<lambda>checksum.
           return_rd (out @ [checksum] @ [PACKET_FOOTER])))"

text \<open>\<open>recive_Verify(buf, len)\<close> returns the C truth value 0 or 1.\<close>

definition recive_Verify :: "byte list \<Rightarrow> int \<Rightarrow> int access" where
  "recive_Verify buf len =
     (if len \<noteq> PACKET_TOTAL_SIZE then return_rd 0
      else bind_rd (rd buf 0) (\<lambda>hdr.
        if hdr \<noteq> PACKET_HEADER then return_rd 0
        else bind_rd (rd buf (len - 1)) (\<lambda>ftr.
          if ftr \<noteq> PACKET_FOOTER then return_rd 0
          else bind_rd (rd buf (1 + PACKET_SIZE)) (\<lambda>expect.
            bind_rd (send_Verify buf 1 PACKET_SIZE) (\<lambda>c.
              return_rd (if c = expect then 1 else 0))))))"

text \<open>
  \<open>decode(in, out)\<close> takes no length and performs no check (its comment: the frame is
  assumed to have passed \<open>recive_Verify\<close>). It copies \<open>sizeof(float) = sizeof(int32_t) = 4\<close>
  bytes into each field, starting at \<open>in + 1\<close>.
\<close>

definition decode :: "endian \<Rightarrow> byte list \<Rightarrow> CyyPacket access" where
  "decode e mem =
     bind_rd (memcpy_rd mem 1 4) (\<lambda>m.
     bind_rd (memcpy_rd mem (1 + 4) 4) (\<lambda>n.
     bind_rd (memcpy_rd mem (1 + 4 + 4) 4) (\<lambda>t.
       return_rd \<lparr>CyyPacket.my = object_value e m,
                  name = object_value e n,
                  target = object_value e t\<rparr>)))"

section \<open>generated/CyyPacket_header_send.c and generated/Cyy_Packet_header_send.cpp\<close>

definition CyyPacket_header_encode :: "endian \<Rightarrow> CyyPacket_header \<Rightarrow> byte list access" where
  "CyyPacket_header_encode e v =
     (let out = [PACKET_HEADER];
          out = out @ object_bytes e (CyyPacket_header.my v);
          out = out @ object_bytes e (CyyPacket_header.name v);
          out = out @ object_bytes e (CyyPacket_header.target v)
      in bind_rd (send_Verify out 1 PACKET_SIZE) (\<lambda>checksum.
           return_rd (out @ [checksum] @ [PACKET_FOOTER])))"

definition Cyy_Packet_header_encode :: "endian \<Rightarrow> Cyy_Packet_header \<Rightarrow> byte list access" where
  "Cyy_Packet_header_encode e v =
     (let out = [PACKET_HEADER];
          out = out @ object_bytes e (Cyy_Packet_header.my v);
          out = out @ object_bytes e (Cyy_Packet_header.name v);
          out = out @ object_bytes e (Cyy_Packet_header.target v)
      in bind_rd (send_Verify out 1 PACKET_SIZE) (\<lambda>checksum.
           return_rd (out @ [checksum] @ [PACKET_FOOTER])))"

section \<open>generated/Dart_aim_Packet_recv.c\<close>

definition Dart_recive_Verify :: "byte list \<Rightarrow> int \<Rightarrow> int access" where
  "Dart_recive_Verify buf len =
     (if len \<noteq> Dart_PACKET_SIZE + 3 then return_rd 0
      else bind_rd (rd buf 0) (\<lambda>hdr.
        if hdr \<noteq> PACKET_HEADER then return_rd 0
        else bind_rd (rd buf (len - 1)) (\<lambda>ftr.
          if ftr \<noteq> PACKET_FOOTER then return_rd 0
          else bind_rd (rd buf (1 + Dart_PACKET_SIZE)) (\<lambda>expect.
            bind_rd (send_Verify buf 1 Dart_PACKET_SIZE) (\<lambda>c.
              return_rd (if c = expect then 1 else 0))))))"

section \<open>examples/WeaponPacket.c\<close>

text \<open>
  \<open>encode\<close> copies the 16 bytes of \<open>aim\<close> and the 4 bytes of \<open>fire\<close> to \<open>out\<close> and nothing
  else; \<open>decode\<close> copies them back from \<open>in\<close>.
\<close>

definition WeaponPacket_encode :: "endian \<Rightarrow> WeaponPacket \<Rightarrow> byte list" where
  "WeaponPacket_encode e v =
     (let out = [];
          out = out @ take 16 (aim v);
          out = out @ object_bytes e (fire v)
      in out)"

definition WeaponPacket_decode :: "endian \<Rightarrow> byte list \<Rightarrow> WeaponPacket access" where
  "WeaponPacket_decode e mem =
     bind_rd (memcpy_rd mem 0 16) (\<lambda>a.
     bind_rd (memcpy_rd mem (0 + 16) 4) (\<lambda>f.
       return_rd \<lparr>aim = a, fire = object_value e f\<rparr>))"

section \<open>Object representations\<close>

lemma word_LE_bytes_LE: "word_LE (bytes_LE w) = w"
proof (rule bit_word_eqI)
  fix n :: nat
  assume n: "n < LENGTH(32)"
  consider "n < 8" | "8 \<le> n" "n < 16" | "16 \<le> n" "n < 24" | "24 \<le> n"
    by linarith
  then show "bit (word_LE (bytes_LE w)) n = bit w n"
    using n by cases (auto simp: word_LE_def bytes_LE_def bit_simps)
qed

lemma bytes_LE_word_LE: "bytes_LE (word_LE [b0, b1, b2, b3]) = [b0, b1, b2, b3]"
  unfolding word_LE_def bytes_LE_def
  apply simp
  apply (intro conjI; rule bit_word_eqI)
     apply (auto simp: bit_simps dest: bit_imp_le_length)
  done

lemma length_object_bytes [simp]: "length (object_bytes e w) = 4"
  by (cases e) (simp_all add: bytes_LE_def)

lemma object_value_bytes [simp]: "object_value e (object_bytes e w) = w"
  by (cases e) (simp_all add: word_LE_bytes_LE)

lemma length_4_conv: "length bs = 4 \<longleftrightarrow> (\<exists>b0 b1 b2 b3. bs = [b0, b1, b2, b3])"
  by (auto simp: numeral_eq_Suc length_Suc_conv)

lemma object_bytes_value: "length bs = 4 \<Longrightarrow> object_bytes e (object_value e bs) = bs"
  unfolding length_4_conv by (cases e) (auto simp: bytes_LE_word_LE)

lemma object_bytes_inject [simp]: "object_bytes e v = object_bytes e w \<longleftrightarrow> v = w"
  by (metis object_value_bytes)

section \<open>Buffer reads\<close>

lemma bind_rd_simps [simp]:
  "bind_rd (t, None) f = (t, None)"
  "bind_rd (t, Some x) f = (t @ fst (f x), snd (f x))"
  by (simp_all add: bind_rd_def)

lemma bind_rd_trace:
  assumes "set (fst m) \<subseteq> S" and "\<And>x. set (fst (f x)) \<subseteq> S"
  shows "set (fst (bind_rd m f)) \<subseteq> S"
  using assms by (cases "snd m") (auto simp: bind_rd_def)

lemma map_nth_upto:
  "0 \<le> a \<Longrightarrow> b < int (length xs) \<Longrightarrow>
   map (\<lambda>k. xs ! nat k) [a..b] = take (nat (b - a + 1)) (drop (nat a) xs)"
  by (rule nth_equalityI) (auto simp: nat_add_distrib)

lemma memcpy_rd_in_bounds:
  "0 \<le> p \<Longrightarrow> p + int n \<le> int (length mem) \<Longrightarrow>
   memcpy_rd mem p n = ([p .. p + int n - 1], Some (take n (drop (nat p) mem)))"
proof (induction n arbitrary: p)
  case 0
  then show ?case by (simp add: return_rd_def)
next
  case (Suc n)
  have step: "memcpy_rd mem (p + 1) n =
      ([p + 1 .. p + 1 + int n - 1], Some (take n (drop (nat (p + 1)) mem)))"
    using Suc.prems by (intro Suc.IH) auto
  have up: "[p .. p + int n] = p # [p + 1 .. p + int n]"
    by (simp add: upto_rec1)
  have "nat p < length mem"
    using Suc.prems by auto
  then have "take (Suc n) (drop (nat p) mem) = mem ! nat p # take n (drop (nat (p + 1)) mem)"
    using Suc.prems
    by (simp add: nat_add_distrib flip: Cons_nth_drop_Suc)
  then show ?case
    using Suc.prems by (simp add: rd_def step up return_rd_def)
qed

lemma memcpy_rd_trace: "set (fst (memcpy_rd mem p n)) \<subseteq> {p ..< p + int n}"
proof (induction n arbitrary: p)
  case 0
  then show ?case by (simp add: return_rd_def)
next
  case (Suc n)
  have "set (fst (memcpy_rd mem (p + 1) n)) \<subseteq> {p ..< p + int (Suc n)}"
    using Suc.IH [of "p + 1"] by auto
  then have inner: "set (fst (bind_rd (memcpy_rd mem (p + 1) n) (\<lambda>bs. return_rd (b # bs))))
      \<subseteq> {p ..< p + int (Suc n)}" for b
    by (intro bind_rd_trace) (simp_all add: return_rd_def)
  have first: "set (fst (rd mem p)) \<subseteq> {p ..< p + int (Suc n)}"
    by (simp add: rd_def)
  show ?case
    unfolding memcpy_rd.simps using first inner by (rule bind_rd_trace)
qed

lemma memcpy_rd_fault:
  "0 < n \<Longrightarrow> \<not> p + int n \<le> int (length mem) \<Longrightarrow> snd (memcpy_rd mem p n) = None"
proof (induction n arbitrary: p)
  case 0
  then show ?case by simp
next
  case (Suc n)
  show ?case
  proof (cases "0 \<le> p \<and> p < int (length mem)")
    case True
    have "snd (memcpy_rd mem (p + 1) n) = None"
      using Suc.prems True by (intro Suc.IH) auto
    then show ?thesis
      using True by (cases "memcpy_rd mem (p + 1) n") (simp add: rd_def)
  next
    case False
    then show ?thesis by (auto simp: rd_def)
  qed
qed

section \<open>The checksum loop\<close>

lemma low_byte_ucast: "(ucast ((s :: 32 word) AND 0xFF) :: byte) = ucast s"
proof -
  have "(0xFF :: 32 word) = mask 8" by (simp add: mask_eq_exp_minus_1)
  then show ?thesis
    by (simp only: flip: take_bit_eq_mask) (rule bit_word_eqI, auto simp: bit_simps)
qed

lemma sum_list_ucast:
  "(sum_list (map ucast (bs :: byte list)) :: 32 word) = word_of_nat (sum_list (map unat bs))"
  by (induction bs) simp_all

lemma checksum_of_sum:
  "(ucast ((sum_list (map ucast (bs :: byte list)) :: 32 word) AND 0xFF) :: byte) = checksum_spec bs"
proof -
  let ?n = "sum_list (map unat bs)"
  have u: "unat (word_of_nat ?n :: 32 word) = ?n mod 2 ^ 32"
    by (simp add: unat_of_nat)
  have "(ucast w :: byte) = word_of_nat (unat w)" for w :: "32 word"
    by simp
  from this [of "word_of_nat ?n"]
  have "(ucast (word_of_nat ?n :: 32 word) :: byte) = word_of_nat (?n mod 2 ^ 32)"
    by (simp only: u)
  also have "\<dots> = word_of_nat ?n"
    by (simp add: word_of_nat_eq_iff take_bit_eq_mod mod_mod_cancel)
  also have "\<dots> = word_of_nat (?n mod 256)"
    by (simp add: word_of_nat_eq_iff take_bit_eq_mod)
  finally show ?thesis
    by (simp only: low_byte_ucast sum_list_ucast checksum_spec_def)
qed

lemma send_Verify_loop_in_bounds:
  "0 \<le> buf \<Longrightarrow> 0 \<le> i \<Longrightarrow> (i < len \<Longrightarrow> buf + len \<le> int (length mem)) \<Longrightarrow>
   send_Verify_loop mem buf len i s =
     ([buf + i .. buf + len - 1],
      Some (s + sum_list (map (\<lambda>k. ucast (mem ! nat k)) [buf + i .. buf + len - 1])))"
proof (induction mem buf len i s rule: send_Verify_loop.induct)
  case (1 mem buf len i s)
  show ?case
  proof (cases "i < len")
    case True
    have up: "[buf + i .. buf + len - 1] = (buf + i) # [buf + (i + 1) .. buf + len - 1]"
      using True by (simp add: upto_rec1 add.assoc)
    have inb: "0 \<le> buf + i \<and> buf + i < int (length mem)"
      using True "1.prems" by simp
    have IH: "send_Verify_loop mem buf len (i + 1) (s + ucast (mem ! nat (buf + i))) =
      ([buf + (i + 1) .. buf + len - 1],
       Some (s + ucast (mem ! nat (buf + i)) +
         sum_list (map (\<lambda>k. ucast (mem ! nat k)) [buf + (i + 1) .. buf + len - 1])))"
      using "1.IH" [OF True] "1.prems" True by simp
    show ?thesis
      by (subst send_Verify_loop.simps) (simp add: True rd_def inb IH up add.assoc)
  next
    case False
    then show ?thesis
      by (subst send_Verify_loop.simps) (simp add: return_rd_def)
  qed
qed

lemma send_Verify_loop_trace:
  "set (fst (send_Verify_loop mem buf len i s)) \<subseteq> {buf + i ..< buf + len}"
proof (induction mem buf len i s rule: send_Verify_loop.induct)
  case (1 mem buf len i s)
  show ?case
  proof (cases "i < len")
    case True
    have "set (fst (send_Verify_loop mem buf len (i + 1) (s + ucast b)))
           \<subseteq> {buf + i ..< buf + len}" for b :: byte
      using "1.IH" [OF True, of b] by auto
    then show ?thesis
      using True
      by (subst send_Verify_loop.simps) (auto simp: rd_def intro!: bind_rd_trace)
  next
    case False
    then show ?thesis
      by (subst send_Verify_loop.simps) (simp add: return_rd_def)
  qed
qed

lemma send_Verify_trace:
  "set (fst (send_Verify mem buf len)) \<subseteq> {buf ..< buf + len}"
  unfolding send_Verify_def
  using send_Verify_loop_trace [of mem buf len 0 0]
  by (intro bind_rd_trace) (auto simp: return_rd_def)

lemma send_Verify_in_bounds:
  assumes "0 \<le> buf" and "0 \<le> len" and "buf + len \<le> int (length mem)"
  shows "send_Verify mem buf len =
     ([buf .. buf + len - 1], Some (checksum_spec (take (nat len) (drop (nat buf) mem))))"
proof -
  have "send_Verify_loop mem buf len 0 0 =
     ([buf .. buf + len - 1],
      Some (sum_list (map (\<lambda>k. ucast (mem ! nat k)) [buf .. buf + len - 1])))"
    using send_Verify_loop_in_bounds [of buf 0 len mem 0] assms by simp
  moreover have "map (\<lambda>k. ucast (mem ! nat k) :: 32 word) [buf .. buf + len - 1] =
      map ucast (take (nat len) (drop (nat buf) mem))"
  proof (cases "len = 0")
    case True
    then show ?thesis by simp
  next
    case False
    then have "map (\<lambda>k. mem ! nat k) [buf .. buf + len - 1] =
        take (nat (buf + len - 1 - buf + 1)) (drop (nat buf) mem)"
      using assms by (intro map_nth_upto) auto
    then have "map ucast (map (\<lambda>k. mem ! nat k) [buf .. buf + len - 1]) =
       (map ucast (take (nat len) (drop (nat buf) mem)) :: 32 word list)"
      by simp
    then show ?thesis by (simp add: comp_def)
  qed
  ultimately show ?thesis
    by (simp add: send_Verify_def return_rd_def checksum_of_sum)
qed

lemma send_Verify_no_iteration:
  "len \<le> 0 \<Longrightarrow> send_Verify mem buf len = ([], Some 0)"
  unfolding send_Verify_def
  by (subst send_Verify_loop.simps) (simp add: return_rd_def)

section \<open>Claims about the checksum\<close>

text \<open>
  C3. For every byte sequence, the empty one included, \<open>send_Verify\<close> called on the whole
  sequence returns a value (it has no error case), having read each byte once, in order:
  the low 8 bits of the sum of the bytes taken in the natural numbers. The 32-bit
  accumulator may wrap on a long input; the result is the same, since 256 divides
  \<open>2 ^ 32\<close>.
\<close>

theorem send_Verify_checksum:
  "send_Verify bs 0 (int (length bs)) = ([0 .. int (length bs) - 1], Some (checksum_spec bs))
   \<and> unat (checksum_spec bs) = sum_list (map unat bs) mod 256
   \<and> send_Verify [] 0 0 = ([], Some 0)"
proof -
  have "send_Verify bs 0 (int (length bs)) =
      ([0 .. int (length bs) - 1], Some (checksum_spec bs))"
    using send_Verify_in_bounds [of 0 "int (length bs)" bs] by simp
  moreover have "unat (checksum_spec bs) = sum_list (map unat bs) mod 256"
    by (simp add: checksum_spec_def unat_of_nat)
  moreover have "send_Verify [] 0 0 = ([], Some 0)"
    by (simp add: send_Verify_no_iteration)
  ultimately show ?thesis by simp
qed

section \<open>Frames\<close>

lemma upto_1_12: "[1..12] = [1, 2, 3, 4, 5, 6, 7, 8, 9, 10, 11, 12 :: int]"
  by (simp add: upto_rec1)

lemma upto_fields:
  "[1..4] = [1, 2, 3, 4 :: int]" "[5..8] = [5, 6, 7, 8 :: int]" "[9..12] = [9, 10, 11, 12 :: int]"
  by (simp_all add: upto_rec1)

lemma if_trace:
  "set (fst a) \<subseteq> S \<Longrightarrow> set (fst b) \<subseteq> S \<Longrightarrow> set (fst (if c then a else b)) \<subseteq> S"
  by simp

lemma payload_length:
  "length (object_bytes e a @ object_bytes e b @ object_bytes e c) = 12"
  by simp

lemma encode_result:
  "encode e v =
     ([1, 2, 3, 4, 5, 6, 7, 8, 9, 10, 11, 12],
      Some (PACKET_HEADER #
            (object_bytes e (CyyPacket.my v) @ object_bytes e (CyyPacket.name v) @
             object_bytes e (CyyPacket.target v)) @
            [checksum_spec (object_bytes e (CyyPacket.my v) @ object_bytes e (CyyPacket.name v) @
               object_bytes e (CyyPacket.target v)),
             PACKET_FOOTER]))"
  by (simp add: encode_def Let_def PACKET_SIZE_def send_Verify_in_bounds return_rd_def upto_1_12)

lemma recive_Verify_wrong_len:
  "len \<noteq> 15 \<Longrightarrow> recive_Verify buf len = ([], Some 0)"
  by (simp add: recive_Verify_def PACKET_TOTAL_SIZE_def PACKET_SIZE_def return_rd_def)

lemma recive_Verify_15:
  "15 \<le> length buf \<Longrightarrow>
   recive_Verify buf 15 =
     (if buf ! 0 \<noteq> 0xAA then ([0], Some 0)
      else if buf ! 14 \<noteq> 0x55 then ([0, 14], Some 0)
      else ([0, 14, 13, 1, 2, 3, 4, 5, 6, 7, 8, 9, 10, 11, 12],
            Some (if checksum_spec (take 12 (drop 1 buf)) = buf ! 13 then 1 else 0)))"
  by (auto simp: recive_Verify_def PACKET_TOTAL_SIZE_def PACKET_SIZE_def PACKET_HEADER_def
      PACKET_FOOTER_def rd_def send_Verify_in_bounds return_rd_def upto_1_12)

lemma recive_Verify_trace:
  "set (fst (recive_Verify buf len)) \<subseteq> {0 ..< 15}"
proof (cases "len = 15")
  case True
  have "set (fst (send_Verify buf 1 12)) \<subseteq> {0 ..< 15}"
    using send_Verify_trace [of buf 1 12] by auto
  then show ?thesis
    unfolding recive_Verify_def PACKET_TOTAL_SIZE_def PACKET_SIZE_def True
    by (intro bind_rd_trace if_trace) (simp_all add: rd_def return_rd_def)
next
  case False
  then show ?thesis by (simp add: recive_Verify_wrong_len)
qed

lemma decode_in_bounds:
  "13 \<le> length mem \<Longrightarrow>
   decode e mem =
     ([1, 2, 3, 4, 5, 6, 7, 8, 9, 10, 11, 12],
      Some \<lparr>CyyPacket.my = object_value e (take 4 (drop 1 mem)),
            name = object_value e (take 4 (drop 5 mem)),
            target = object_value e (take 4 (drop 9 mem))\<rparr>)"
  by (simp add: decode_def memcpy_rd_in_bounds return_rd_def upto_fields)

lemma decode_trace: "set (fst (decode e mem)) \<subseteq> {1 ..< 13}"
proof -
  have "set (fst (memcpy_rd mem 1 4)) \<subseteq> {1 ..< 13}"
       "set (fst (memcpy_rd mem (1 + 4) 4)) \<subseteq> {1 ..< 13}"
       "set (fst (memcpy_rd mem (1 + 4 + 4) 4)) \<subseteq> {1 ..< 13}"
    using memcpy_rd_trace [of mem 1 4] memcpy_rd_trace [of mem 5 4] memcpy_rd_trace [of mem 9 4]
    by auto
  then show ?thesis
    unfolding decode_def by (intro bind_rd_trace) (simp_all add: return_rd_def)
qed

lemma decode_fault: "length mem < 13 \<Longrightarrow> snd (decode e mem) = None"
proof -
  assume short: "length mem < 13"
  have third: "snd (memcpy_rd mem (1 + 4 + 4) 4) = None"
    using short by (intro memcpy_rd_fault) auto
  show ?thesis
    unfolding decode_def
    by (cases "memcpy_rd mem 1 4"; cases "memcpy_rd mem (1 + 4) 4";
        cases "memcpy_rd mem (1 + 4 + 4) 4")
       (use third in \<open>auto simp: bind_rd_def split: option.splits\<close>)
qed

section \<open>Claims about encode\<close>

text \<open>
  C4. For every CyyPacket value, \<open>encode\<close> returns a frame (it has no error path) of
  exactly \<open>PACKET_TOTAL_SIZE = PACKET_SIZE + 3 = 15\<close> bytes: the header byte 0xAA at offset
  0; the 4 bytes of \<open>my\<close>, the 4 of \<open>name\<close> and the 4 of \<open>target\<close>, in this order and with
  nothing between them, at offsets 1 to 12; the checksum of the bytes at offsets 1 to 12
  at offset 13; the footer byte 0x55 at offset 14.
\<close>

theorem encode_layout:
  "\<exists>frame. snd (encode e v) = Some frame
     \<and> int (length frame) = PACKET_TOTAL_SIZE
     \<and> PACKET_TOTAL_SIZE = PACKET_SIZE + 3
     \<and> length frame = 15
     \<and> length (object_bytes e (CyyPacket.my v)) = 4
     \<and> length (object_bytes e (CyyPacket.name v)) = 4
     \<and> length (object_bytes e (CyyPacket.target v)) = 4
     \<and> frame = [0xAA] @ object_bytes e (CyyPacket.my v) @ object_bytes e (CyyPacket.name v)
           @ object_bytes e (CyyPacket.target v)
           @ [checksum_spec (take 12 (drop 1 frame))] @ [0x55]"
  by (simp add: encode_result PACKET_TOTAL_SIZE_def PACKET_SIZE_def PACKET_HEADER_def
      PACKET_FOOTER_def)

text \<open>
  C1. For every CyyPacket value \<open>v\<close>, \<open>encode\<close> returns a 15-byte frame which
  \<open>recive_Verify\<close> accepts (it returns 1) and from which \<open>decode\<close> rebuilds a struct whose
  three fields have the byte representations of the fields of \<open>v\<close>: it is \<open>v\<close>.
\<close>

theorem encode_decode_roundtrip:
  "\<exists>frame w. snd (encode e v) = Some frame
     \<and> length frame = 15
     \<and> snd (recive_Verify frame (int (length frame))) = Some 1
     \<and> snd (decode e frame) = Some w
     \<and> object_bytes e (CyyPacket.my w) = object_bytes e (CyyPacket.my v)
     \<and> object_bytes e (CyyPacket.name w) = object_bytes e (CyyPacket.name v)
     \<and> object_bytes e (CyyPacket.target w) = object_bytes e (CyyPacket.target v)
     \<and> w = v"
  by (simp add: encode_result recive_Verify_15 decode_in_bounds PACKET_HEADER_def
      PACKET_FOOTER_def nth_append)

section \<open>Claims about validation\<close>

lemma upto_1_16: "[1..16] = [1, 2, 3, 4, 5, 6, 7, 8, 9, 10, 11, 12, 13, 14, 15, 16 :: int]"
  by (simp add: upto_rec1)

lemma Dart_recive_Verify_wrong_len:
  "len \<noteq> 19 \<Longrightarrow> Dart_recive_Verify buf len = ([], Some 0)"
  by (simp add: Dart_recive_Verify_def Dart_PACKET_SIZE_def return_rd_def)

lemma Dart_recive_Verify_19:
  "19 \<le> length buf \<Longrightarrow>
   Dart_recive_Verify buf 19 =
     (if buf ! 0 \<noteq> 0xAA then ([0], Some 0)
      else if buf ! 18 \<noteq> 0x55 then ([0, 18], Some 0)
      else ([0, 18, 17, 1, 2, 3, 4, 5, 6, 7, 8, 9, 10, 11, 12, 13, 14, 15, 16],
            Some (if checksum_spec (take 16 (drop 1 buf)) = buf ! 17 then 1 else 0)))"
  by (auto simp: Dart_recive_Verify_def Dart_PACKET_SIZE_def PACKET_HEADER_def
      PACKET_FOOTER_def rd_def send_Verify_in_bounds return_rd_def upto_1_16)

text \<open>
  C2, as the code has it. Called with the true length of its input, \<open>recive_Verify\<close>
  checks in this order: the length (nothing is read when it is not 15), byte 0 against the
  header, byte 14 against the footer, then the transmitted checksum at offset 13 against
  the sum of bytes 1 to 12. It stops at the first check that fails: the offsets read are
  none, 0, or 0 and 14. Every failure returns the same 0 and success returns 1; the caller
  gets no other report. \<open>Dart_recive_Verify\<close> does the same for 19-byte frames.
\<close>

theorem recive_Verify_order:
  "recive_Verify buf (int (length buf)) =
     (if length buf \<noteq> 15 then ([], Some 0)
      else if buf ! 0 \<noteq> PACKET_HEADER then ([0], Some 0)
      else if buf ! 14 \<noteq> PACKET_FOOTER then ([0, 14], Some 0)
      else ([0, 14, 13, 1, 2, 3, 4, 5, 6, 7, 8, 9, 10, 11, 12],
            Some (if checksum_spec (take 12 (drop 1 buf)) = buf ! 13 then 1 else 0)))
   \<and> Dart_recive_Verify buf (int (length buf)) =
     (if length buf \<noteq> 19 then ([], Some 0)
      else if buf ! 0 \<noteq> PACKET_HEADER then ([0], Some 0)
      else if buf ! 18 \<noteq> PACKET_FOOTER then ([0, 18], Some 0)
      else ([0, 18, 17, 1, 2, 3, 4, 5, 6, 7, 8, 9, 10, 11, 12, 13, 14, 15, 16],
            Some (if checksum_spec (take 16 (drop 1 buf)) = buf ! 17 then 1 else 0)))"
proof -
  have "recive_Verify buf (int (length buf)) =
     (if length buf \<noteq> 15 then ([], Some 0)
      else if buf ! 0 \<noteq> PACKET_HEADER then ([0], Some 0)
      else if buf ! 14 \<noteq> PACKET_FOOTER then ([0, 14], Some 0)
      else ([0, 14, 13, 1, 2, 3, 4, 5, 6, 7, 8, 9, 10, 11, 12],
            Some (if checksum_spec (take 12 (drop 1 buf)) = buf ! 13 then 1 else 0)))"
  proof (cases "length buf = 15")
    case True
    then show ?thesis
      using recive_Verify_15 [of buf]
      by (simp add: PACKET_HEADER_def PACKET_FOOTER_def)
  next
    case False
    then show ?thesis by (simp add: recive_Verify_wrong_len)
  qed
  moreover have "Dart_recive_Verify buf (int (length buf)) =
     (if length buf \<noteq> 19 then ([], Some 0)
      else if buf ! 0 \<noteq> PACKET_HEADER then ([0], Some 0)
      else if buf ! 18 \<noteq> PACKET_FOOTER then ([0, 18], Some 0)
      else ([0, 18, 17, 1, 2, 3, 4, 5, 6, 7, 8, 9, 10, 11, 12, 13, 14, 15, 16],
            Some (if checksum_spec (take 16 (drop 1 buf)) = buf ! 17 then 1 else 0)))"
  proof (cases "length buf = 19")
    case True
    then show ?thesis
      using Dart_recive_Verify_19 [of buf]
      by (simp add: PACKET_HEADER_def PACKET_FOOTER_def)
  next
    case False
    then show ?thesis by (simp add: Dart_recive_Verify_wrong_len)
  qed
  ultimately show ?thesis by (rule conjI)
qed

lemma checksum_spec_zeros: "checksum_spec (replicate n 0) = 0"
  by (induction n) (simp_all add: checksum_spec_def)

text \<open>
  Against C2 as stated (four distinct errors): a wrong length, a bad header, a bad footer
  and a bad checksum all give the caller the value 0.
\<close>

theorem recive_Verify_failures_alike:
  "snd (recive_Verify [] 0) = Some 0
   \<and> snd (recive_Verify (replicate 15 0) 15) = Some 0
   \<and> snd (recive_Verify (0xAA # replicate 14 0) 15) = Some 0
   \<and> snd (recive_Verify (0xAA # replicate 12 0 @ [1, 0x55]) 15) = Some 0
   \<and> snd (recive_Verify (0xAA # replicate 12 0 @ [0, 0x55]) 15) = Some 1"
  by (simp add: recive_Verify_wrong_len recive_Verify_15 nth_append checksum_spec_zeros nth_Cons')

text \<open>The five paths of \<open>recive_Verify\<close> on concrete inputs, offsets read included.\<close>

theorem recive_Verify_order_witness:
  "recive_Verify [] 0 = ([], Some 0)
   \<and> recive_Verify (replicate 15 0) 15 = ([0], Some 0)
   \<and> recive_Verify (0xAA # replicate 14 0) 15 = ([0, 14], Some 0)
   \<and> recive_Verify (0xAA # replicate 12 0 @ [1, 0x55]) 15 =
       ([0, 14, 13, 1, 2, 3, 4, 5, 6, 7, 8, 9, 10, 11, 12], Some 0)
   \<and> recive_Verify (0xAA # replicate 12 0 @ [0, 0x55]) 15 =
       ([0, 14, 13, 1, 2, 3, 4, 5, 6, 7, 8, 9, 10, 11, 12], Some 1)"
  using recive_Verify_order [of "[]"] recive_Verify_order [of "replicate 15 0"]
    recive_Verify_order [of "0xAA # replicate 14 0"]
    recive_Verify_order [of "0xAA # replicate 12 0 @ [1, 0x55]"]
    recive_Verify_order [of "0xAA # replicate 12 0 @ [0, 0x55]"]
  by (simp add: PACKET_HEADER_def PACKET_FOOTER_def nth_append checksum_spec_zeros nth_Cons')

lemma recive_Verify_accepts_iff:
  "snd (recive_Verify buf (int (length buf))) = Some 1 \<longleftrightarrow>
     length buf = 15 \<and> buf ! 0 = PACKET_HEADER \<and> buf ! 14 = PACKET_FOOTER
     \<and> checksum_spec (take 12 (drop 1 buf)) = buf ! 13"
proof (cases "length buf = 15")
  case True
  then show ?thesis
    using recive_Verify_15 [of buf]
    by (simp add: PACKET_HEADER_def PACKET_FOOTER_def)
next
  case False
  then show ?thesis by (simp add: recive_Verify_wrong_len)
qed

lemma recive_Verify_returns:
  "snd (recive_Verify buf (int (length buf))) = Some 0
   \<or> snd (recive_Verify buf (int (length buf))) = Some 1"
proof (cases "length buf = 15")
  case True
  then show ?thesis
    using recive_Verify_15 [of buf] by simp
next
  case False
  then show ?thesis by (simp add: recive_Verify_wrong_len)
qed

lemma payload_split:
  "13 \<le> length mem \<Longrightarrow>
   take 4 (drop 1 mem) @ take 4 (drop 5 mem) @ take 4 (drop 9 mem) = take 12 (drop 1 mem)"
  by (rule nth_equalityI) (auto simp: nth_append)

text \<open>
  C5, as the code has it. Validation and deserialisation are two functions.
  \<open>recive_Verify\<close> returns 1 exactly when all four checks pass. \<open>decode\<close> checks nothing: on
  any buffer of at least 13 bytes it returns the struct made of bytes 1 to 12. So the
  payload is validated only for a caller who calls \<open>decode\<close> after \<open>recive_Verify\<close> returned
  1, and then the bytes of the decoded fields are the bytes the checksum was verified on.
\<close>

theorem decode_unchecked:
  "(snd (recive_Verify buf (int (length buf))) = Some 1 \<longleftrightarrow>
      length buf = 15 \<and> buf ! 0 = PACKET_HEADER \<and> buf ! 14 = PACKET_FOOTER
      \<and> checksum_spec (take 12 (drop 1 buf)) = buf ! 13)
   \<and> (13 \<le> length buf \<longrightarrow>
        snd (decode e buf) =
          Some \<lparr>CyyPacket.my = object_value e (take 4 (drop 1 buf)),
                name = object_value e (take 4 (drop 5 buf)),
                target = object_value e (take 4 (drop 9 buf))\<rparr>)
   \<and> (snd (recive_Verify buf (int (length buf))) = Some 1 \<longrightarrow>
        (\<exists>p. snd (decode e buf) = Some p
           \<and> object_bytes e (CyyPacket.my p) @ object_bytes e (CyyPacket.name p)
               @ object_bytes e (CyyPacket.target p) = take 12 (drop 1 buf)
           \<and> checksum_spec (object_bytes e (CyyPacket.my p) @ object_bytes e (CyyPacket.name p)
               @ object_bytes e (CyyPacket.target p)) = buf ! 13))"
proof (intro conjI impI)
  show "snd (recive_Verify buf (int (length buf))) = Some 1 \<longleftrightarrow>
      length buf = 15 \<and> buf ! 0 = PACKET_HEADER \<and> buf ! 14 = PACKET_FOOTER
      \<and> checksum_spec (take 12 (drop 1 buf)) = buf ! 13"
    by (rule recive_Verify_accepts_iff)
next
  assume "13 \<le> length buf"
  then show "snd (decode e buf) =
          Some \<lparr>CyyPacket.my = object_value e (take 4 (drop 1 buf)),
                name = object_value e (take 4 (drop 5 buf)),
                target = object_value e (take 4 (drop 9 buf))\<rparr>"
    by (simp add: decode_in_bounds)
next
  assume "snd (recive_Verify buf (int (length buf))) = Some 1"
  then have ok: "length buf = 15" "checksum_spec (take 12 (drop 1 buf)) = buf ! 13"
    by (simp_all add: recive_Verify_accepts_iff)
  let ?p = "\<lparr>CyyPacket.my = object_value e (take 4 (drop 1 buf)),
                name = object_value e (take 4 (drop 5 buf)),
                target = object_value e (take 4 (drop 9 buf))\<rparr>"
  have "snd (decode e buf) = Some ?p"
    using ok by (simp add: decode_in_bounds)
  moreover have "object_bytes e (CyyPacket.my ?p) @ object_bytes e (CyyPacket.name ?p)
      @ object_bytes e (CyyPacket.target ?p) = take 12 (drop 1 buf)"
    using ok payload_split [of buf] by (simp add: object_bytes_value)
  ultimately show "\<exists>p. snd (decode e buf) = Some p
           \<and> object_bytes e (CyyPacket.my p) @ object_bytes e (CyyPacket.name p)
               @ object_bytes e (CyyPacket.target p) = take 12 (drop 1 buf)
           \<and> checksum_spec (object_bytes e (CyyPacket.my p) @ object_bytes e (CyyPacket.name p)
               @ object_bytes e (CyyPacket.target p)) = buf ! 13"
    using ok by auto
qed

lemma word_LE_eval:
  "word_LE [b0, b1, b2, b3] =
     ucast b0 OR push_bit 8 (ucast b1 OR push_bit 8 (ucast b2 OR push_bit 8 (ucast b3)))"
  by (simp add: word_LE_def)

text \<open>
  Against C5 as stated: a valid frame with one payload byte corrupted is rejected by
  \<open>recive_Verify\<close>, and \<open>decode\<close> still returns the corrupted payload.
\<close>

theorem decode_of_rejected_frame:
  "snd (recive_Verify [0xAA, 1, 0, 0, 0, 0, 0, 0, 0, 0, 0, 0, 0, 0, 0x55] 15) = Some 0
   \<and> snd (decode LittleEndian [0xAA, 1, 0, 0, 0, 0, 0, 0, 0, 0, 0, 0, 0, 0, 0x55]) =
       Some \<lparr>CyyPacket.my = 1, name = 0, target = 0\<rparr>"
  by (simp add: recive_Verify_15 decode_in_bounds checksum_spec_def word_LE_eval)

text \<open>A frame that \<open>recive_Verify\<close> accepts, and its decoded payload.\<close>

theorem decode_unchecked_witness:
  "snd (recive_Verify [0xAA, 1, 0, 0, 0, 0, 0, 0, 0, 0, 0, 0, 0, 1, 0x55] 15) = Some 1
   \<and> snd (decode LittleEndian [0xAA, 1, 0, 0, 0, 0, 0, 0, 0, 0, 0, 0, 0, 1, 0x55]) =
       Some \<lparr>CyyPacket.my = 1, name = 0, target = 0\<rparr>
   \<and> checksum_spec [1, 0, 0, 0, 0, 0, 0, 0, 0, 0, 0, 0] = 1"
  using decode_unchecked [of "[0xAA, 1, 0, 0, 0, 0, 0, 0, 0, 0, 0, 0, 0, 1, 0x55]" LittleEndian]
  by (simp add: PACKET_HEADER_def PACKET_FOOTER_def checksum_spec_def word_LE_eval)

text \<open>
  C6, as the code has it. Take the frame \<open>encode\<close> returns. With its first byte replaced
  by any value but the header, \<open>recive_Verify\<close> returns 0 after reading offset 0 only; with
  its last byte replaced by any value but the footer, it returns 0 after reading offsets 0
  and 14. In both frames the checksum byte still equals the checksum of the payload. The
  two rejections are the same value 0, and \<open>decode\<close>, which checks nothing, still returns
  the payload.
\<close>

theorem altered_header_footer_rejected:
  "snd (encode e v) = Some frame \<Longrightarrow> h \<noteq> PACKET_HEADER \<Longrightarrow> t \<noteq> PACKET_FOOTER \<Longrightarrow>
     recive_Verify (frame[0 := h]) (int (length (frame[0 := h]))) = ([0], Some 0)
   \<and> recive_Verify (frame[14 := t]) (int (length (frame[14 := t]))) = ([0, 14], Some 0)
   \<and> snd (send_Verify (frame[0 := h]) 1 PACKET_SIZE) = Some (frame[0 := h] ! 13)
   \<and> snd (send_Verify (frame[14 := t]) 1 PACKET_SIZE) = Some (frame[14 := t] ! 13)
   \<and> snd (decode e (frame[0 := h])) = Some v
   \<and> snd (decode e (frame[14 := t])) = Some v"
proof -
  assume enc: "snd (encode e v) = Some frame" and h: "h \<noteq> PACKET_HEADER" and t: "t \<noteq> PACKET_FOOTER"
  let ?payload = "object_bytes e (CyyPacket.my v) @ object_bytes e (CyyPacket.name v) @
             object_bytes e (CyyPacket.target v)"
  have frame: "frame = PACKET_HEADER # ?payload @ [checksum_spec ?payload, PACKET_FOOTER]"
    using enc by (simp add: encode_result)
  have len: "length frame = 15"
    by (simp add: frame)
  have fh: "frame[0 := h] = h # ?payload @ [checksum_spec ?payload, PACKET_FOOTER]"
    by (simp add: frame)
  have ft: "frame[14 := t] = PACKET_HEADER # ?payload @ [checksum_spec ?payload, t]"
    by (simp add: frame list_update_append)
  have "recive_Verify (frame[0 := h]) (int (length (frame[0 := h]))) = ([0], Some 0)"
    using h by (simp add: fh recive_Verify_15 PACKET_HEADER_def)
  moreover have "recive_Verify (frame[14 := t]) (int (length (frame[14 := t]))) = ([0, 14], Some 0)"
    using t by (simp add: ft recive_Verify_15 PACKET_HEADER_def PACKET_FOOTER_def nth_append)
  moreover have "snd (send_Verify (frame[0 := h]) 1 PACKET_SIZE) = Some (frame[0 := h] ! 13)"
    by (simp add: fh send_Verify_in_bounds PACKET_SIZE_def nth_append)
  moreover have "snd (send_Verify (frame[14 := t]) 1 PACKET_SIZE) = Some (frame[14 := t] ! 13)"
    by (simp add: ft send_Verify_in_bounds PACKET_SIZE_def nth_append)
  moreover have "snd (decode e (frame[0 := h])) = Some v"
    by (simp add: fh decode_in_bounds)
  moreover have "snd (decode e (frame[14 := t])) = Some v"
    by (simp add: ft decode_in_bounds)
  ultimately show ?thesis by simp
qed

lemma encode_zero:
  "snd (encode LittleEndian \<lparr>CyyPacket.my = 0, name = 0, target = 0\<rparr>) =
     Some [0xAA, 0, 0, 0, 0, 0, 0, 0, 0, 0, 0, 0, 0, 0, 0x55]"
  by (simp add: encode_result bytes_LE_def checksum_spec_def PACKET_HEADER_def PACKET_FOOTER_def)

text \<open>The frame of the all-zero payload, with header 0x00 and with footer 0xFF.\<close>

theorem altered_header_footer_rejected_witness:
  "snd (encode LittleEndian \<lparr>CyyPacket.my = 0, name = 0, target = 0\<rparr>) =
     Some [0xAA, 0, 0, 0, 0, 0, 0, 0, 0, 0, 0, 0, 0, 0, 0x55]
   \<and> (0x00 :: byte) \<noteq> PACKET_HEADER \<and> (0xFF :: byte) \<noteq> PACKET_FOOTER
   \<and> recive_Verify [0x00, 0, 0, 0, 0, 0, 0, 0, 0, 0, 0, 0, 0, 0, 0x55] 15 = ([0], Some 0)
   \<and> recive_Verify [0xAA, 0, 0, 0, 0, 0, 0, 0, 0, 0, 0, 0, 0, 0, 0xFF] 15 = ([0, 14], Some 0)
   \<and> snd (decode LittleEndian [0x00, 0, 0, 0, 0, 0, 0, 0, 0, 0, 0, 0, 0, 0, 0x55]) =
       Some \<lparr>CyyPacket.my = 0, name = 0, target = 0\<rparr>"
proof -
  have h: "(0x00 :: byte) \<noteq> PACKET_HEADER" and t: "(0xFF :: byte) \<noteq> PACKET_FOOTER"
    by (simp_all add: PACKET_HEADER_def PACKET_FOOTER_def)
  show ?thesis
    using altered_header_footer_rejected [OF encode_zero h t] encode_zero h t
    by simp
qed

text \<open>
  Against C6 as stated (BadHeader and BadFooter, from decode): the altered header and the
  altered footer give the same result 0 from \<open>recive_Verify\<close>, and \<open>decode\<close> does not fail
  on either frame.
\<close>

theorem header_footer_failures_alike:
  "snd (recive_Verify [0x00, 0, 0, 0, 0, 0, 0, 0, 0, 0, 0, 0, 0, 0, 0x55] 15) = Some 0
   \<and> snd (recive_Verify [0xAA, 0, 0, 0, 0, 0, 0, 0, 0, 0, 0, 0, 0, 0, 0xFF] 15) = Some 0
   \<and> snd (decode LittleEndian [0x00, 0, 0, 0, 0, 0, 0, 0, 0, 0, 0, 0, 0, 0, 0x55]) =
       Some \<lparr>CyyPacket.my = 0, name = 0, target = 0\<rparr>
   \<and> snd (decode LittleEndian [0xAA, 0, 0, 0, 0, 0, 0, 0, 0, 0, 0, 0, 0, 0, 0xFF]) =
       Some \<lparr>CyyPacket.my = 0, name = 0, target = 0\<rparr>"
  by (simp add: recive_Verify_15 decode_in_bounds word_LE_eval)

section \<open>Claims about buffer accesses\<close>

text \<open>
  C7, as the code has it. For every buffer and every \<open>len\<close>, each offset \<open>recive_Verify\<close>
  or \<open>decode\<close> reads lies in \<open>[0, PACKET_TOTAL_SIZE)\<close>, and \<open>recive_Verify\<close> reads nothing
  when \<open>len\<close> is not \<open>PACKET_TOTAL_SIZE\<close>. Neither function has a path that aborts. Given
  the true length of its input, \<open>recive_Verify\<close> returns 0 or 1 without reading outside the
  input, whatever that length is. \<open>decode\<close> has no length to check: it stays inside its
  input exactly when the input holds at least 13 bytes, which is so whenever
  \<open>recive_Verify\<close> has accepted the input.
\<close>

theorem reads_within_frame:
  "(\<forall>i \<in> set (fst (recive_Verify buf len)). 0 \<le> i \<and> i < PACKET_TOTAL_SIZE)
   \<and> (\<forall>i \<in> set (fst (decode e buf)). 0 \<le> i \<and> i < PACKET_TOTAL_SIZE)
   \<and> (len \<noteq> PACKET_TOTAL_SIZE \<longrightarrow> recive_Verify buf len = ([], Some 0))
   \<and> (snd (recive_Verify buf (int (length buf))) = Some 0
        \<or> snd (recive_Verify buf (int (length buf))) = Some 1)
   \<and> (snd (decode e buf) \<noteq> None \<longleftrightarrow> 13 \<le> length buf)
   \<and> (snd (recive_Verify buf (int (length buf))) = Some 1 \<longrightarrow> snd (decode e buf) \<noteq> None)"
proof (intro conjI)
  show "\<forall>i \<in> set (fst (recive_Verify buf len)). 0 \<le> i \<and> i < PACKET_TOTAL_SIZE"
    using recive_Verify_trace [of buf len]
    by (auto simp: PACKET_TOTAL_SIZE_def PACKET_SIZE_def)
  show "\<forall>i \<in> set (fst (decode e buf)). 0 \<le> i \<and> i < PACKET_TOTAL_SIZE"
    using decode_trace [of e buf]
    by (auto simp: PACKET_TOTAL_SIZE_def PACKET_SIZE_def)
  show "len \<noteq> PACKET_TOTAL_SIZE \<longrightarrow> recive_Verify buf len = ([], Some 0)"
    by (simp add: recive_Verify_wrong_len PACKET_TOTAL_SIZE_def PACKET_SIZE_def)
  show "snd (recive_Verify buf (int (length buf))) = Some 0
        \<or> snd (recive_Verify buf (int (length buf))) = Some 1"
    by (rule recive_Verify_returns)
  show dec: "snd (decode e buf) \<noteq> None \<longleftrightarrow> 13 \<le> length buf"
    using decode_fault [of buf e] decode_in_bounds [of buf e]
    by (cases "13 \<le> length buf") auto
  show "snd (recive_Verify buf (int (length buf))) = Some 1 \<longrightarrow> snd (decode e buf) \<noteq> None"
    unfolding dec by (simp add: recive_Verify_accepts_iff)
qed

lemma memcpy_rd_first_fault:
  "\<not> (0 \<le> p \<and> p < int (length mem)) \<Longrightarrow> memcpy_rd mem p (Suc n) = ([p], None)"
  by (auto simp: rd_def)

text \<open>
  Against C7 as stated (every input of any length): on an empty input and on a 5-byte
  input \<open>decode\<close> reads offsets 1 and 5, outside the input.
\<close>

theorem decode_short_buffer:
  "decode LittleEndian [] = ([1], None)
   \<and> decode LittleEndian [0xAA, 1, 2, 3, 4] = ([1, 2, 3, 4, 5], None)"
proof -
  have "memcpy_rd [] 1 (Suc 3) = ([1], None)"
    by (rule memcpy_rd_first_fault) simp
  then have a: "memcpy_rd [] 1 4 = ([1], None)"
    by (simp add: eval_nat_numeral)
  have b: "memcpy_rd [0xAA, 1, 2, 3, 4] 1 4 = ([1, 2, 3, 4], Some [1, 2, 3, 4])"
    by (simp add: memcpy_rd_in_bounds upto_fields)
  have "memcpy_rd [0xAA, 1, 2, 3, 4] 5 (Suc 3) = ([5], None)"
    by (rule memcpy_rd_first_fault) simp
  then have c: "memcpy_rd [0xAA, 1, 2, 3, 4] 5 4 = ([5], None)"
    by (simp add: eval_nat_numeral)
  show ?thesis
    by (simp add: decode_def a b c)
qed

text \<open>The offsets read on a valid frame, and the early return for \<open>len = 14\<close>.\<close>

theorem reads_within_frame_witness:
  "set (fst (recive_Verify [0xAA, 0, 0, 0, 0, 0, 0, 0, 0, 0, 0, 0, 0, 0, 0x55] 15))
      = {0, 14, 13, 1, 2, 3, 4, 5, 6, 7, 8, 9, 10, 11, 12}
   \<and> set (fst (decode LittleEndian [0xAA, 0, 0, 0, 0, 0, 0, 0, 0, 0, 0, 0, 0, 0, 0x55]))
      = {1, 2, 3, 4, 5, 6, 7, 8, 9, 10, 11, 12}
   \<and> recive_Verify [0xAA, 0, 0, 0, 0, 0, 0, 0, 0, 0, 0, 0, 0, 0, 0x55] 14 = ([], Some 0)
   \<and> snd (recive_Verify [0xAA, 0, 0, 0, 0, 0, 0, 0, 0, 0, 0, 0, 0, 0, 0x55] 15) = Some 1
   \<and> snd (decode LittleEndian [0xAA, 0, 0, 0, 0, 0, 0, 0, 0, 0, 0, 0, 0, 0, 0x55]) \<noteq> None"
  using reads_within_frame [of "[0xAA, 0, 0, 0, 0, 0, 0, 0, 0, 0, 0, 0, 0, 0, 0x55]" 15 LittleEndian]
    reads_within_frame [of "[0xAA, 0, 0, 0, 0, 0, 0, 0, 0, 0, 0, 0, 0, 0, 0x55]" 14 LittleEndian]
  by (simp add: recive_Verify_15 decode_in_bounds checksum_spec_def PACKET_TOTAL_SIZE_def
      PACKET_SIZE_def)

section \<open>Claims about decode and the sibling encoders\<close>

text \<open>
  C8. For any two 15-byte buffers that agree at offsets 1 to 12, \<open>decode\<close> reads the same
  offsets and returns the same struct: the bytes at offsets 0, 13 and 14 do not matter.
\<close>

theorem decode_ignores_framing:
  "length a = 15 \<Longrightarrow> length b = 15 \<Longrightarrow> (\<forall>i \<in> {1 .. 12}. a ! i = b ! i) \<Longrightarrow>
   decode e a = decode e b \<and> (\<exists>p. snd (decode e a) = Some p)"
proof -
  assume la: "length a = 15" and lb: "length b = 15"
    and same: "\<forall>i \<in> {1 .. 12}. a ! i = b ! i"
  have "take 12 (drop 1 a) = take 12 (drop 1 b)"
    using la lb same by (intro nth_equalityI) auto
  then have "take 4 (drop k (take 12 (drop 1 a))) = take 4 (drop k (take 12 (drop 1 b)))" for k
    by simp
  from this [of 0] this [of 4] this [of 8]
  have "take 4 (drop 1 a) = take 4 (drop 1 b)" "take 4 (drop 5 a) = take 4 (drop 5 b)"
    "take 4 (drop 9 a) = take 4 (drop 9 b)"
    by (simp_all add: drop_take)
  then show ?thesis
    using la lb by (simp add: decode_in_bounds)
qed

text \<open>Two buffers that differ in header, checksum and footer only.\<close>

theorem decode_ignores_framing_witness:
  "length [0xAA, 1, 0, 0, 0, 2, 0, 0, 0, 3, 0, 0, 0, 6, 0x55 :: byte] = 15
   \<and> length [0x00, 1, 0, 0, 0, 2, 0, 0, 0, 3, 0, 0, 0, 0xFF, 0x77 :: byte] = 15
   \<and> take 12 (drop 1 [0xAA, 1, 0, 0, 0, 2, 0, 0, 0, 3, 0, 0, 0, 6, 0x55 :: byte])
     = take 12 (drop 1 [0x00, 1, 0, 0, 0, 2, 0, 0, 0, 3, 0, 0, 0, 0xFF, 0x77])
   \<and> decode LittleEndian [0xAA, 1, 0, 0, 0, 2, 0, 0, 0, 3, 0, 0, 0, 6, 0x55]
     = decode LittleEndian [0x00, 1, 0, 0, 0, 2, 0, 0, 0, 3, 0, 0, 0, 0xFF, 0x77]
   \<and> snd (decode LittleEndian [0x00, 1, 0, 0, 0, 2, 0, 0, 0, 3, 0, 0, 0, 0xFF, 0x77])
     = Some \<lparr>CyyPacket.my = 1, name = 2, target = 3\<rparr>"
proof -
  have "\<forall>i \<in> {1 .. 12}. [0xAA, 1, 0, 0, 0, 2, 0, 0, 0, 3, 0, 0, 0, 6, 0x55 :: byte] ! i
      = [0x00, 1, 0, 0, 0, 2, 0, 0, 0, 3, 0, 0, 0, 0xFF, 0x77] ! i"
    by (simp add: atLeastAtMost_def atLeast_def atMost_def nth_Cons') 
  from decode_ignores_framing [OF _ _ this, of LittleEndian]
  show ?thesis
    by (simp add: decode_in_bounds word_LE_eval)
qed

lemma CyyPacket_header_encode_result:
  "CyyPacket_header_encode e v =
     ([1, 2, 3, 4, 5, 6, 7, 8, 9, 10, 11, 12],
      Some (PACKET_HEADER #
            (object_bytes e (CyyPacket_header.my v) @ object_bytes e (CyyPacket_header.name v) @
             object_bytes e (CyyPacket_header.target v)) @
            [checksum_spec (object_bytes e (CyyPacket_header.my v) @
               object_bytes e (CyyPacket_header.name v) @
               object_bytes e (CyyPacket_header.target v)),
             PACKET_FOOTER]))"
  by (simp add: CyyPacket_header_encode_def Let_def PACKET_SIZE_def send_Verify_in_bounds
      return_rd_def upto_1_12)

lemma Cyy_Packet_header_encode_result:
  "Cyy_Packet_header_encode e v =
     ([1, 2, 3, 4, 5, 6, 7, 8, 9, 10, 11, 12],
      Some (PACKET_HEADER #
            (object_bytes e (Cyy_Packet_header.my v) @ object_bytes e (Cyy_Packet_header.name v) @
             object_bytes e (Cyy_Packet_header.target v)) @
            [checksum_spec (object_bytes e (Cyy_Packet_header.my v) @
               object_bytes e (Cyy_Packet_header.name v) @
               object_bytes e (Cyy_Packet_header.target v)),
             PACKET_FOOTER]))"
  by (simp add: Cyy_Packet_header_encode_def Let_def PACKET_SIZE_def send_Verify_in_bounds
      return_rd_def upto_1_12)

text \<open>
  C9. Given three structs, one of each declaration, whose \<open>my\<close>, \<open>name\<close> and \<open>target\<close> have
  the same byte representations, the \<open>encode\<close> functions of examples/CyyPacket.c,
  generated/CyyPacket_header_send.c and generated/Cyy_Packet_header_send.cpp return the
  same 15-byte frame.
\<close>

theorem three_encoders_agree:
  "object_bytes e (CyyPacket.my a) = object_bytes e (CyyPacket_header.my b) \<Longrightarrow>
   object_bytes e (CyyPacket.name a) = object_bytes e (CyyPacket_header.name b) \<Longrightarrow>
   object_bytes e (CyyPacket.target a) = object_bytes e (CyyPacket_header.target b) \<Longrightarrow>
   object_bytes e (CyyPacket.my a) = object_bytes e (Cyy_Packet_header.my c) \<Longrightarrow>
   object_bytes e (CyyPacket.name a) = object_bytes e (Cyy_Packet_header.name c) \<Longrightarrow>
   object_bytes e (CyyPacket.target a) = object_bytes e (Cyy_Packet_header.target c) \<Longrightarrow>
   \<exists>frame. length frame = 15
     \<and> snd (encode e a) = Some frame
     \<and> snd (CyyPacket_header_encode e b) = Some frame
     \<and> snd (Cyy_Packet_header_encode e c) = Some frame"
  by (simp add: encode_result CyyPacket_header_encode_result Cyy_Packet_header_encode_result)

text \<open>The three encoders on \<open>my = 1, name = 2, target = 3\<close>.\<close>

theorem three_encoders_agree_witness:
  "snd (encode LittleEndian \<lparr>CyyPacket.my = 1, name = 2, target = 3\<rparr>)
     = Some [0xAA, 1, 0, 0, 0, 2, 0, 0, 0, 3, 0, 0, 0, 6, 0x55]
   \<and> snd (CyyPacket_header_encode LittleEndian \<lparr>CyyPacket_header.my = 1, name = 2, target = 3\<rparr>)
     = Some [0xAA, 1, 0, 0, 0, 2, 0, 0, 0, 3, 0, 0, 0, 6, 0x55]
   \<and> snd (Cyy_Packet_header_encode LittleEndian \<lparr>Cyy_Packet_header.my = 1, name = 2, target = 3\<rparr>)
     = Some [0xAA, 1, 0, 0, 0, 2, 0, 0, 0, 3, 0, 0, 0, 6, 0x55]"
proof -
  have enc: "snd (encode LittleEndian \<lparr>CyyPacket.my = 1, name = 2, target = 3\<rparr>)
     = Some [0xAA, 1, 0, 0, 0, 2, 0, 0, 0, 3, 0, 0, 0, 6, 0x55]"
    by (simp add: encode_result bytes_LE_def checksum_spec_def PACKET_HEADER_def PACKET_FOOTER_def)
  from three_encoders_agree [of LittleEndian "\<lparr>CyyPacket.my = 1, name = 2, target = 3\<rparr>"
      "\<lparr>CyyPacket_header.my = 1, name = 2, target = 3\<rparr>"
      "\<lparr>Cyy_Packet_header.my = 1, name = 2, target = 3\<rparr>"]
  obtain frame where
    "snd (encode LittleEndian \<lparr>CyyPacket.my = 1, name = 2, target = 3\<rparr>) = Some frame"
    "snd (CyyPacket_header_encode LittleEndian \<lparr>CyyPacket_header.my = 1, name = 2, target = 3\<rparr>)
       = Some frame"
    "snd (Cyy_Packet_header_encode LittleEndian \<lparr>Cyy_Packet_header.my = 1, name = 2, target = 3\<rparr>)
       = Some frame"
    by auto
  with enc show ?thesis by simp
qed

section \<open>Claims about WeaponPacket\<close>

lemma upto_0_15: "[0..15] = [0, 1, 2, 3, 4, 5, 6, 7, 8, 9, 10, 11, 12, 13, 14, 15 :: int]"
  by (simp add: upto_rec1)

lemma upto_16_19: "[16..19] = [16, 17, 18, 19 :: int]"
  by (simp add: upto_rec1)

lemma WeaponPacket_decode_in_bounds:
  "20 \<le> length mem \<Longrightarrow>
   WeaponPacket_decode e mem =
     ([0, 1, 2, 3, 4, 5, 6, 7, 8, 9, 10, 11, 12, 13, 14, 15, 16, 17, 18, 19],
      Some \<lparr>aim = take 16 mem, fire = object_value e (take 4 (drop 16 mem))\<rparr>)"
  by (simp add: WeaponPacket_decode_def memcpy_rd_in_bounds return_rd_def upto_0_15 upto_16_19)

text \<open>
  C10. For every WeaponPacket value (16 bytes in \<open>aim\<close>), \<open>WeaponPacket_encode\<close> returns
  exactly 20 bytes, the 16 of \<open>aim\<close> then the 4 of \<open>fire\<close>, with no header, checksum or
  footer, and \<open>WeaponPacket_decode\<close> rebuilds the value from them. \<open>WeaponPacket_decode\<close>
  validates nothing: from any buffer of at least 20 bytes it returns the struct made of the
  first 20.
\<close>

theorem WeaponPacket_raw_roundtrip:
  "(length (aim v) = 16 \<longrightarrow>
      WeaponPacket_encode e v = aim v @ object_bytes e (fire v)
      \<and> length (WeaponPacket_encode e v) = 20
      \<and> snd (WeaponPacket_decode e (WeaponPacket_encode e v)) = Some v)
   \<and> (20 \<le> length mem \<longrightarrow>
      snd (WeaponPacket_decode e mem) =
        Some \<lparr>aim = take 16 mem, fire = object_value e (take 4 (drop 16 mem))\<rparr>)"
  by (simp add: WeaponPacket_encode_def WeaponPacket_decode_in_bounds)

text \<open>A round trip, and a 21-byte buffer that is no frame of any kind.\<close>

theorem WeaponPacket_raw_roundtrip_witness:
  "length (aim \<lparr>aim = [1, 2, 3, 4, 5, 6, 7, 8, 9, 10, 11, 12, 13, 14, 15, 16], fire = 0x01020304\<rparr>) = 16
   \<and> WeaponPacket_encode LittleEndian
        \<lparr>aim = [1, 2, 3, 4, 5, 6, 7, 8, 9, 10, 11, 12, 13, 14, 15, 16], fire = 0x01020304\<rparr>
      = [1, 2, 3, 4, 5, 6, 7, 8, 9, 10, 11, 12, 13, 14, 15, 16, 4, 3, 2, 1]
   \<and> snd (WeaponPacket_decode LittleEndian
        [1, 2, 3, 4, 5, 6, 7, 8, 9, 10, 11, 12, 13, 14, 15, 16, 4, 3, 2, 1])
      = Some \<lparr>aim = [1, 2, 3, 4, 5, 6, 7, 8, 9, 10, 11, 12, 13, 14, 15, 16], fire = 0x01020304\<rparr>
   \<and> (20 :: nat) \<le> length [0xAA, 0, 0, 0, 0, 0, 0, 0, 0, 0, 0, 0, 0, 0, 0, 0, 9, 0, 0, 0, 0x55 :: byte]
   \<and> snd (WeaponPacket_decode LittleEndian
        [0xAA, 0, 0, 0, 0, 0, 0, 0, 0, 0, 0, 0, 0, 0, 0, 0, 9, 0, 0, 0, 0x55])
      = Some \<lparr>aim = [0xAA, 0, 0, 0, 0, 0, 0, 0, 0, 0, 0, 0, 0, 0, 0, 0], fire = 9\<rparr>"
proof -
  have bytes: "bytes_LE 0x01020304 = [4, 3, 2, 1]"
    by (simp add: bytes_LE_def)
  show ?thesis
    using WeaponPacket_raw_roundtrip [of
      "\<lparr>aim = [1, 2, 3, 4, 5, 6, 7, 8, 9, 10, 11, 12, 13, 14, 15, 16], fire = 0x01020304\<rparr>"
      LittleEndian "[0xAA, 0, 0, 0, 0, 0, 0, 0, 0, 0, 0, 0, 0, 0, 0, 0, 9, 0, 0, 0, 0x55]"]
    by (simp add: WeaponPacket_encode_def bytes word_LE_eval)
qed

end
